theory Spec2Isabelle
  imports Complex_Main
begin

section \<open>JavaScript numbers\<close>

text \<open>
  A finite JavaScript number is an IEEE-754 binary64 value, hence a rational.  Every
  arithmetic operator of the source rounds its exact result to the nearest binary64
  value, ties to even.  Below the smallest normal exponent \<open>emin\<close> the values are
  equally spaced (the subnormal numbers down to zero).  A rounded value of magnitude
  \<open>2^1024\<close> or more stands for an infinity: \<open>overflow64\<close> tells it, and the places
  where the source can produce an infinity treat it as JavaScript does.  The search for
  the binary exponent runs on a fuel beyond the exponent range, so that running out of
  it means a subnormal or an overflowing value.
\<close>

definition pow2 :: "int \<Rightarrow> rat" where
  "pow2 e = (if 0 \<le> e then 2 ^ nat e else 1 / 2 ^ nat (- e))"

fun expo :: "nat \<Rightarrow> rat \<Rightarrow> int" where
  "expo 0 x = 0"
| "expo (Suc n) x =
     (if 2 \<le> x then expo n (x / 2) + 1
      else if x < 1 then expo n (x * 2) - 1
      else 0)"

definition round_half_even :: "rat \<Rightarrow> int" where
  "round_half_even m =
     (let f = \<lfloor>m\<rfloor>; d = m - of_int f
      in if d < 1 / 2 then f
         else if 1 / 2 < d then f + 1
         else if even f then f else f + 1)"

definition fl :: "nat \<Rightarrow> int \<Rightarrow> rat \<Rightarrow> rat" where
  \<comment> \<open>round to the nearest value with a \<open>p\<close>-bit significand and an exponent of at
      least \<open>emin\<close>\<close>
  "fl p emin x =
     (if x = 0 then 0
      else let e = max (expo 2100 \<bar>x\<bar>) emin;
               u = pow2 (e - (int p - 1))
           in sgn x * of_int (round_half_even (\<bar>x\<bar> / u)) * u)"

definition binary64 :: "rat \<Rightarrow> rat" where
  "binary64 x = fl 53 (- 1022) x"

definition binary32 :: "rat \<Rightarrow> rat" where
  "binary32 x = fl 24 (- 126) x"

definition overflow64 :: "rat \<Rightarrow> bool" where
  \<comment> \<open>the rounded value is \<open>Infinity\<close> or \<open>-Infinity\<close>\<close>
  "overflow64 y = (pow2 1024 \<le> \<bar>y\<bar>)"

definition fdiv :: "rat \<Rightarrow> rat \<Rightarrow> rat" where
  "fdiv a b = binary64 (a / b)"

definition fmul :: "rat \<Rightarrow> rat \<Rightarrow> rat" where
  "fmul a b = binary64 (a * b)"

definition fadd :: "rat \<Rightarrow> rat \<Rightarrow> rat" where
  "fadd a b = binary64 (a + b)"

definition fsub :: "rat \<Rightarrow> rat \<Rightarrow> rat" where
  "fsub a b = binary64 (a - b)"

definition js_round :: "rat \<Rightarrow> int" where
  \<comment> \<open>\<open>Math.round\<close>: the nearest integer, a tie going towards plus infinity\<close>
  "js_round x = \<lfloor>x + 1 / 2\<rfloor>"

section \<open>Sample resampler\<close>

text \<open>
  An element of a \<open>Float32Array\<close> is a finite number, an infinity or NaN.  Reading a
  typed array outside its bounds gives \<open>undefined\<close> (here \<open>None\<close>); arithmetic on
  \<open>undefined\<close> gives NaN, and storing \<open>undefined\<close> into a \<open>Float32Array\<close> stores
  NaN.  A computed value is rounded to binary32 when it is stored, to an infinity when
  its magnitude rounds to \<open>2^128\<close> or more; an element read from the input array is a
  binary32 value already and is stored as it is.  The interpolation weights lie between
  0 and 1 and the samples are binary32 values, so the double arithmetic on them does not
  overflow.
\<close>

datatype sample = Val rat | PInf | NInf | NaN

datatype error = RangeError | EncodeError | WriteError | TransportError
  | NoResponseBody | DecodeError | SyntaxError

definition read_at :: "sample list \<Rightarrow> int \<Rightarrow> sample option" where
  "read_at a i = (if 0 \<le> i \<and> i < int (length a) then Some (a ! nat i) else None)"

definition store :: "sample option \<Rightarrow> sample" where
  "store v = (case v of Some s \<Rightarrow> s | None \<Rightarrow> NaN)"

definition smul :: "sample option \<Rightarrow> rat \<Rightarrow> sample" where
  \<comment> \<open>a sample read from the array times a weight; an infinity times zero is NaN\<close>
  "smul v w =
     (case v of
        Some (Val a) \<Rightarrow> Val (fmul a w)
      | Some PInf \<Rightarrow> (if w = 0 then NaN else if 0 < w then PInf else NInf)
      | Some NInf \<Rightarrow> (if w = 0 then NaN else if 0 < w then NInf else PInf)
      | _ \<Rightarrow> NaN)"

fun sadd :: "sample \<Rightarrow> sample \<Rightarrow> sample" where
  "sadd (Val x) (Val y) = Val (fadd x y)"
| "sadd NaN b = NaN"
| "sadd a NaN = NaN"
| "sadd PInf NInf = NaN"
| "sadd NInf PInf = NaN"
| "sadd PInf b = PInf"
| "sadd a PInf = PInf"
| "sadd NInf b = NInf"
| "sadd a NInf = NInf"

definition store32 :: "sample \<Rightarrow> sample" where
  \<comment> \<open>a store into a \<open>Float32Array\<close> rounds to binary32\<close>
  "store32 s =
     (case s of
        Val x \<Rightarrow>
          (let y = binary32 x
           in if pow2 128 \<le> y then PInf else if y \<le> - pow2 128 then NInf else Val y)
      | PInf \<Rightarrow> PInf
      | NInf \<Rightarrow> NInf
      | NaN \<Rightarrow> NaN)"

definition resample_step :: "sample list \<Rightarrow> rat \<Rightarrow> nat \<Rightarrow> int list \<times> sample" where
  \<comment> \<open>one iteration of the loop: the indices of \<open>audioData\<close> it reads, and \<open>result[i]\<close>\<close>
  "resample_step audioData ratio i =
     (let position = fmul (of_nat i) ratio;
          index = \<lfloor>position\<rfloor>;
          fraction = fsub position (of_int index)
      in if int (length audioData) - 1 \<le> index
         then ([int (length audioData) - 1],
               store (read_at audioData (int (length audioData) - 1)))
         else ([index, index + 1],
               store32 (sadd (smul (read_at audioData index) (fsub 1 fraction))
                             (smul (read_at audioData (index + 1)) fraction))))"

text \<open>
  \<open>new Float32Array(n)\<close> throws a RangeError when \<open>n\<close> is negative, infinite or
  more than the engine can allocate; \<open>maxLength\<close> is the largest length it accepts, a
  property of the running engine (below \<open>2^53\<close> in every engine).  A NaN length gives
  an array of length 0.  In the cases below: a ratio that is an infinity makes
  \<open>length / ratio\<close> zero; a ratio that is zero makes it NaN for the length 0 and an
  infinity otherwise.  The loop runs only when the quotient rounds to 1 or more, so
  there the ratio is finite, at most twice the input length, and no position
  \<open>i * ratio\<close> overflows.
\<close>

definition newLength_of :: "int \<Rightarrow> nat \<Rightarrow> rat \<Rightarrow> rat \<Rightarrow> int option" where
  \<comment> \<open>\<open>Math.round(audioData.length / ratio)\<close>; \<open>None\<close> where \<open>new Float32Array\<close>
      throws a RangeError\<close>
  "newLength_of maxLength len originalSampleRate targetSampleRate =
     (if targetSampleRate = 0 \<or> overflow64 (fdiv originalSampleRate targetSampleRate)
      then Some 0
      else let ratio = fdiv originalSampleRate targetSampleRate
           in if ratio = 0 then (if len = 0 then Some 0 else None)
              else let quotient = fdiv (of_nat len) ratio
                   in if overflow64 quotient then None
                      else let newLength = js_round quotient
                           in if newLength < 0 \<or> maxLength < newLength then None
                              else Some newLength)"

definition resampleAudio ::
  "int \<Rightarrow> sample list \<Rightarrow> rat \<Rightarrow> rat \<Rightarrow> error + sample list" where
  "resampleAudio maxLength audioData originalSampleRate targetSampleRate =
     (if originalSampleRate = targetSampleRate then Inr audioData
      else case newLength_of maxLength (length audioData) originalSampleRate
                  targetSampleRate of
             None \<Rightarrow> Inl RangeError
           | Some newLength \<Rightarrow>
               Inr (map (\<lambda>i. snd (resample_step audioData
                                     (fdiv originalSampleRate targetSampleRate) i))
                        [0..<nat newLength]))"

definition resample_reads :: "sample list \<Rightarrow> rat \<Rightarrow> rat \<Rightarrow> nat \<Rightarrow> int list" where
  \<comment> \<open>the indices of \<open>audioData\<close> read while \<open>result[i]\<close> is computed\<close>
  "resample_reads audioData originalSampleRate targetSampleRate i =
     fst (resample_step audioData (fdiv originalSampleRate targetSampleRate) i)"

section \<open>JSON values and transcription results\<close>

datatype json = JNull | JBool bool | JNum rat | JStr string
  | JArr "json list" | JObj "(string \<times> json) list"

text \<open>
  An object is the list of its own properties in property order; a
  \<open>TranscriptionResult\<close> is an object.
\<close>

type_synonym TranscriptionResult = "(string \<times> json) list"

type_synonym bytes = "nat list"

fun show_nat :: "nat \<Rightarrow> string" where
  "show_nat n =
     (if n < 10 then [char_of (48 + n)]
      else show_nat (n div 10) @ [char_of (48 + n mod 10)])"

declare show_nat.simps [simp del]

definition spread :: "json \<Rightarrow> (string \<times> json) list" where
  \<comment> \<open>\<open>{...v}\<close>: the own enumerable properties of \<open>v\<close>\<close>
  "spread v =
     (case v of
        JObj props \<Rightarrow> props
      | JArr items \<Rightarrow> zip (map show_nat [0..<length items]) items
      | JStr s \<Rightarrow> zip (map show_nat [0..<length s]) (map (\<lambda>c. JStr [c]) s)
      | _ \<Rightarrow> [])"

definition set_prop :: "string \<Rightarrow> json \<Rightarrow> (string \<times> json) list \<Rightarrow> (string \<times> json) list" where
  \<comment> \<open>a property written after a spread: replaced in place, or added last\<close>
  "set_prop k v props =
     (if k \<in> fst ` set props
      then map (\<lambda>(k', v'). if k' = k then (k', v) else (k', v')) props
      else props @ [(k, v)])"

definition get_prop :: "(string \<times> json) list \<Rightarrow> string \<Rightarrow> json option" where
  \<comment> \<open>\<open>obj[k]\<close>; \<open>None\<close> is \<open>undefined\<close>\<close>
  "get_prop props k = map_of props k"

section \<open>Inference client (stt-transcription.ts)\<close>

record TranscriptionOptions =
  region :: "string option"
  profile :: "string option"
  endpointName :: "string option"

record client_config =
  client_region :: string
  client_profile :: string
  rejectUnauthorized :: bool

record invoke_params =
  EndpointName :: string
  Body :: bytes
  ContentType :: string
  Accept :: string

record response =
  ResponseBody :: "bytes option"

text \<open>
  The collaborators outside the repository's sources: the SageMaker transport, the text
  decoder, the JSON parser and the clock of the host process; the largest typed array
  the engine allocates, the WAV encoder of the module \<open>./wav\<close>, the file write behind
  \<open>window.nodeAPI.writeFile\<close>, the clock and the number and JSON printers of the UI
  process.
\<close>

record platform =
  send :: "client_config \<Rightarrow> invoke_params \<Rightarrow> error + response"
  decode :: "bytes \<Rightarrow> error + string"
  parse :: "string \<Rightarrow> error + json"
  startTime :: int
  endTime :: int
  maxLength :: int
  renderWavFile :: "sample list \<Rightarrow> bool \<times> nat \<times> rat \<Rightarrow> error + bytes"
  writeFile :: "string \<Rightarrow> bytes \<Rightarrow> error + unit"
  isoTime :: string
  localeTime :: string
  numToString :: "rat \<Rightarrow> string"
  stringify :: "json \<Rightarrow> string"

definition DEFAULT_ENDPOINT_NAME :: string where
  "DEFAULT_ENDPOINT_NAME = ''dlsg-ds-asr-real-time-djl-2-endpoint''"

definition CONTENT_TYPE :: string where
  "CONTENT_TYPE = ''audio/wav''"

definition ACCEPT_TYPE :: string where
  "ACCEPT_TYPE = ''application/json''"

definition or_default :: "string option \<Rightarrow> string \<Rightarrow> string" where
  \<comment> \<open>\<open>v || d\<close> on an optional string: \<open>undefined\<close> and the empty string are falsy\<close>
  "or_default v d = (case v of None \<Rightarrow> d | Some s \<Rightarrow> if s = [] then d else s)"

definition createClient :: "TranscriptionOptions \<Rightarrow> client_config" where
  "createClient options =
     \<lparr>client_region = or_default (region options) ''us-east-1'',
      client_profile = or_default (profile options) ''default'',
      rejectUnauthorized = False\<rparr>"

definition params_of :: "bytes \<Rightarrow> TranscriptionOptions \<Rightarrow> invoke_params" where
  "params_of audioData options =
     \<lparr>EndpointName = or_default (endpointName options) DEFAULT_ENDPOINT_NAME,
      Body = audioData, ContentType = CONTENT_TYPE, Accept = ACCEPT_TYPE\<rparr>"

definition transcribeAudio ::
  "platform \<Rightarrow> bytes \<Rightarrow> TranscriptionOptions \<Rightarrow> error + TranscriptionResult" where
  "transcribeAudio p audioData options =
     (let client = createClient options;
          params = params_of audioData options
      in case send p client params of
           Inl err \<Rightarrow> Inl err
         | Inr data \<Rightarrow>
             (let duration = endTime p - startTime p
              in case ResponseBody data of
                   None \<Rightarrow> Inl NoResponseBody
                 | Some body \<Rightarrow>
                     (case decode p body of
                        Inl err \<Rightarrow> Inl err
                      | Inr jsonString \<Rightarrow>
                          (case parse p jsonString of
                             Inl err \<Rightarrow> Inl err
                           | Inr jsonObject \<Rightarrow>
                               Inr (set_prop ''duration'' (JNum (of_int duration))
                                      (spread jsonObject))))))"

definition no_options :: TranscriptionOptions where
  "no_options = \<lparr>region = None, profile = None, endpointName = None\<rparr>"

definition nodeAPI_transcribeAudio :: "platform \<Rightarrow> bytes \<Rightarrow> error + TranscriptionResult" where
  \<comment> \<open>the preload bridge: \<open>transcribeAudio(Buffer.from(audioData))\<close>, errors rethrown\<close>
  "nodeAPI_transcribeAudio p audioData = transcribeAudio p audioData no_options"

section \<open>Display of a result\<close>

text \<open>
  The text of a result is a JSON value, so none of the conversions below can throw and
  the \<open>catch\<close> branch of \<open>updateTranscriptionUI\<close> is never taken.
\<close>

definition truthy :: "json \<Rightarrow> bool" where
  "truthy v =
     (case v of
        JNull \<Rightarrow> False
      | JBool b \<Rightarrow> b
      | JNum n \<Rightarrow> n \<noteq> 0
      | JStr s \<Rightarrow> s \<noteq> []
      | JArr items \<Rightarrow> True
      | JObj props \<Rightarrow> True)"

fun join :: "string \<Rightarrow> string list \<Rightarrow> string" where
  "join sep [] = []"
| "join sep [x] = x"
| "join sep (x # y # ys) = x @ sep @ join sep (y # ys)"

fun js_String :: "(rat \<Rightarrow> string) \<Rightarrow> json \<Rightarrow> string"
  and join_items :: "(rat \<Rightarrow> string) \<Rightarrow> json list \<Rightarrow> string list" where
  "js_String ns JNull = ''null''"
| "js_String ns (JBool b) = (if b then ''true'' else ''false'')"
| "js_String ns (JNum n) = ns n"
| "js_String ns (JStr s) = s"
| "js_String ns (JArr items) = join '','' (join_items ns items)"
| "js_String ns (JObj props) = ''[object Object]''"
| "join_items ns [] = []"
| "join_items ns (x # xs) =
     (if x = JNull then [] else js_String ns x) # join_items ns xs"

definition text_item :: "(rat \<Rightarrow> string) \<Rightarrow> json \<Rightarrow> string" where
  \<comment> \<open>one element of \<open>textItems\<close> as \<open>join\<close> prints it: \<open>item.text\<close> of a record with
      a \<open>text\<close> property (\<open>join\<close> prints \<open>null\<close> as the empty string), otherwise
      \<open>String(item)\<close>\<close>
  "text_item ns item =
     (case item of
        JObj props \<Rightarrow>
          (case get_prop props ''text'' of
             Some v \<Rightarrow> (if v = JNull then [] else js_String ns v)
           | None \<Rightarrow> js_String ns item)
      | _ \<Rightarrow> js_String ns item)"

definition transcribedText :: "platform \<Rightarrow> TranscriptionResult \<Rightarrow> string" where
  "transcribedText p result =
     (case get_prop result ''text'' of
        None \<Rightarrow> ''(No transcription)''
      | Some t \<Rightarrow>
          if truthy t then
            (case t of
               JArr items \<Rightarrow>
                 if 0 < length items
                 then join '' '' (map (text_item (numToString p)) items)
                 else stringify p t
             | JStr s \<Rightarrow> s
             | _ \<Rightarrow> stringify p t)
          else ''(No transcription)'')"

section \<open>Session state, segment processor and scheduler\<close>

type_synonym chunk = "sample list"

datatype call = Process "chunk list" | Resample | Encode | Persist | Infer | Display
  | LogError error

text \<open>
  The module's state variables, \<open>window.stopRecordingSubject\<close>, the children of the
  DOM element \<open>transcriptionResults\<close> (newest first; \<open>None\<close> when the element does
  not exist), the open subscriptions of the capture pipeline with the window buffer of
  each, and a log of the calls made to the segment processor and its collaborators and
  of the failures it reports with \<open>console.error\<close>.
  A window handed over on a tick is processed to its end within that tick: the
  interleaving of a segment still in flight with later events is not part of the model.
\<close>

record app =
  isRecording :: bool
  recordingSubscription :: "nat option"
  transcriptionResults :: "TranscriptionResult list"
  stopRecordingSubject :: "nat option"
  container :: "(string \<times> string) list option"
  live :: "(nat \<times> chunk list) list"
  nextId :: nat
  calls :: "call list"

definition INTERVAL_SECONDS :: nat where
  "INTERVAL_SECONDS = 30"

definition TARGET_SAMPLE_RATE :: rat where
  "TARGET_SAMPLE_RATE = 8000"

definition DEVICE_SAMPLE_RATE :: rat where
  "DEVICE_SAMPLE_RATE = 44100"

definition called :: "call \<Rightarrow> app \<Rightarrow> app" where
  "called c s = s\<lparr>calls := calls s @ [c]\<rparr>"

definition renderAudioToWav :: "platform \<Rightarrow> sample list \<Rightarrow> error + bytes" where
  "renderAudioToWav p audioData = renderWavFile p audioData (False, 1, TARGET_SAMPLE_RATE)"

definition originalAudioData :: "chunk list \<Rightarrow> sample list" where
  \<comment> \<open>\<open>new Float32Array(chunks.reduce((acc, chunk) => acc.concat(chunk), []))\<close>\<close>
  "originalAudioData chunks = map store32 (concat chunks)"

definition filename :: "platform \<Rightarrow> string" where
  "filename p =
     ''chunk-'' @
     map (\<lambda>c. if c = CHR '':'' \<or> c = CHR ''.'' then CHR ''-'' else c) (isoTime p) @
     ''.wav''"

definition updateTranscriptionUI :: "platform \<Rightarrow> TranscriptionResult \<Rightarrow> app \<Rightarrow> app" where
  "updateTranscriptionUI p result s =
     (case container s of
        None \<Rightarrow> s
      | Some children \<Rightarrow>
          s\<lparr>container := Some ((localeTime p, transcribedText p result) # children)\<rparr>)"

definition processAudioChunk ::
  "platform \<Rightarrow> chunk list \<Rightarrow> app \<Rightarrow> TranscriptionResult option \<times> app" where
  "processAudioChunk p chunks s =
     (let s0 = called (Process chunks) s;
          s1 = called Resample s0
      in case resampleAudio (maxLength p) (originalAudioData chunks) DEVICE_SAMPLE_RATE
                TARGET_SAMPLE_RATE of
           Inl err \<Rightarrow> (None, called (LogError err) s1)
         | Inr resampledAudioData \<Rightarrow>
             (let s2 = called Encode s1
              in case renderAudioToWav p resampledAudioData of
                   Inl err \<Rightarrow> (None, called (LogError err) s2)
                 | Inr wavData \<Rightarrow>
                     (let s3 = called Persist s2
                      in case writeFile p (filename p) wavData of
                           Inl err \<Rightarrow> (None, called (LogError err) s3)
                         | Inr u \<Rightarrow>
                             (let s4 = called Infer s3
                              in case nodeAPI_transcribeAudio p wavData of
                                   Inl err \<Rightarrow> (None, called (LogError err) s4)
                                 | Inr result \<Rightarrow>
                                     (let s5 = s4\<lparr>transcriptionResults :=
                                                     transcriptionResults s4 @ [result]\<rparr>;
                                          s6 = called Display s5
                                      in (Some result, updateTranscriptionUI p result s6))))))"

definition subscriber_next :: "platform \<Rightarrow> chunk list \<Rightarrow> app \<Rightarrow> app" where
  \<comment> \<open>the \<open>next\<close> callback of the subscription\<close>
  "subscriber_next p chunks s =
     (if length chunks = 0 then s else snd (processAudioChunk p chunks s))"

definition close_pipeline :: "nat \<Rightarrow> app \<Rightarrow> app" where
  "close_pipeline k s = s\<lparr>live := filter (\<lambda>(k', b). k' \<noteq> k) (live s)\<rparr>"

definition startIntervalRecording :: "app \<Rightarrow> app" where
  "startIntervalRecording s =
     (if isRecording s then s
      else s\<lparr>isRecording := True,
              transcriptionResults := [],
              container := (case container s of None \<Rightarrow> None | Some children \<Rightarrow> Some []),
              live := live s @ [(nextId s, [])],
              recordingSubscription := Some (nextId s),
              stopRecordingSubject := Some (nextId s),
              nextId := nextId s + 1\<rparr>)"

definition stopIntervalRecording :: "app \<Rightarrow> app" where
  "stopIntervalRecording s =
     (if \<not> isRecording s then s
      else let s1 = (case stopRecordingSubject s of
                       None \<Rightarrow> s
                     | Some k \<Rightarrow> (close_pipeline k s)\<lparr>stopRecordingSubject := None\<rparr>);
               s2 = (case recordingSubscription s1 of
                       None \<Rightarrow> s1
                     | Some k \<Rightarrow> (close_pipeline k s1)\<lparr>recordingSubscription := None\<rparr>)
           in s2\<lparr>isRecording := False\<rparr>)"

text \<open>
  Modelled from the spec: the operators \<open>buffer\<close>, \<open>interval\<close> and \<open>takeUntil\<close> of
  the library rxjs and the capture source \<open>audio_stream\<close> are not among the sources.
  While a subscription is open every arriving chunk is appended to its window buffer; on a
  tick the buffer is detached, reset to empty and handed to the \<open>next\<close> callback; an
  error of the capture source runs the \<open>error\<close> callback and ends the subscription.
\<close>

datatype event = Chunk chunk | Tick | Start | Stop | StreamError

fun step :: "platform \<Rightarrow> app \<Rightarrow> event \<Rightarrow> app" where
  "step p s (Chunk c) = s\<lparr>live := map (\<lambda>(k, b). (k, b @ [c])) (live s)\<rparr>"
| "step p s Tick =
     foldl (\<lambda>s' (k, b). subscriber_next p b s')
       (s\<lparr>live := map (\<lambda>(k, b). (k, [])) (live s)\<rparr>) (live s)"
| "step p s Start = startIntervalRecording s"
| "step p s Stop = stopIntervalRecording s"
| "step p s StreamError =
     (if live s = [] then s else (stopIntervalRecording s)\<lparr>live := []\<rparr>)"

definition run :: "platform \<Rightarrow> event list \<Rightarrow> app \<Rightarrow> app" where
  "run p es s = foldl (step p) s es"

definition initial :: "(string \<times> string) list option \<Rightarrow> app" where
  "initial c =
     \<lparr>isRecording = False, recordingSubscription = None, transcriptionResults = [],
      stopRecordingSubject = None, container = c, live = [], nextId = 0, calls = []\<rparr>"

definition windows :: "app \<Rightarrow> chunk list list" where
  \<comment> \<open>the windows handed to the segment processor so far, in order\<close>
  "windows s = concat (map (\<lambda>c. case c of Process w \<Rightarrow> [w] | _ \<Rightarrow> []) (calls s))"

definition pending :: "app \<Rightarrow> chunk list" where
  \<comment> \<open>the chunks waiting in the open window buffers\<close>
  "pending s = concat (map snd (live s))"

definition chunks_of :: "event list \<Rightarrow> chunk list" where
  "chunks_of es = concat (map (\<lambda>e. case e of Chunk c \<Rightarrow> [c] | _ \<Rightarrow> []) es)"

section \<open>Notions used in the statements\<close>

definition session_inv :: "app \<Rightarrow> bool" where
  \<comment> \<open>not recording and no open subscription, or recording with exactly one, the one the
      stored subscription and stop subject belong to\<close>
  "session_inv s =
     (case live s of
        [] \<Rightarrow>
          \<not> isRecording s \<and> recordingSubscription s = None \<and> stopRecordingSubject s = None
      | [(k, b)] \<Rightarrow>
          isRecording s \<and> recordingSubscription s = Some k \<and> stopRecordingSubject s = Some k
      | _ \<Rightarrow> False)"

definition transport_errors :: "platform \<Rightarrow> bytes \<Rightarrow> TranscriptionOptions \<Rightarrow> bool" where
  "transport_errors p audioData options =
     isl (send p (createClient options) (params_of audioData options))"

definition body_absent :: "platform \<Rightarrow> bytes \<Rightarrow> TranscriptionOptions \<Rightarrow> bool" where
  "body_absent p audioData options =
     (case send p (createClient options) (params_of audioData options) of
        Inl err \<Rightarrow> False
      | Inr data \<Rightarrow> ResponseBody data = None)"

definition decode_or_parse_fails :: "platform \<Rightarrow> bytes \<Rightarrow> TranscriptionOptions \<Rightarrow> bool" where
  "decode_or_parse_fails p audioData options =
     (case send p (createClient options) (params_of audioData options) of
        Inl err \<Rightarrow> False
      | Inr data \<Rightarrow>
          (case ResponseBody data of
             None \<Rightarrow> False
           | Some body \<Rightarrow>
               (case decode p body of
                  Inl err \<Rightarrow> True
                | Inr jsonString \<Rightarrow> isl (parse p jsonString))))"

text \<open>
  A platform for concrete runs: the endpoint answers every request with one payload, a
  text and a duration of its own; typed arrays hold up to \<open>2^32 - 1\<close> elements; the
  encoder refuses an empty input and otherwise writes a 44-byte header and two bytes
  per sample; every file write succeeds.
\<close>

definition demo_platform :: platform where
  "demo_platform =
     \<lparr>send = (\<lambda>client params. Inr \<lparr>ResponseBody = Some [123, 125]\<rparr>),
      decode = (\<lambda>body. if body = [] then Inl DecodeError else Inr ''payload''),
      parse = (\<lambda>jsonString.
                 if jsonString = ''payload''
                 then Inr (JObj [(''text'', JStr ''hello''), (''duration'', JNum 7)])
                 else Inl SyntaxError),
      startTime = 1000,
      endTime = 1250,
      maxLength = 4294967295,
      renderWavFile = (\<lambda>audioData config.
                         if audioData = [] then Inl EncodeError
                         else Inr (replicate (44 + 2 * length audioData) 0)),
      writeFile = (\<lambda>path data. Inr ()),
      isoTime = ''2024-01-01T00:00:30.000Z'',
      localeTime = ''00:00:30'',
      numToString = (\<lambda>n. show_nat (nat \<lfloor>n\<rfloor>)),
      stringify = (\<lambda>v. ''[]'')\<rparr>"

definition failing_disk :: platform where
  \<comment> \<open>the same platform with a file write that always fails\<close>
  "failing_disk = demo_platform\<lparr>writeFile := (\<lambda>path data. Inl WriteError)\<rparr>"

definition spec_length :: "nat \<Rightarrow> rat \<Rightarrow> rat \<Rightarrow> int" where
  \<comment> \<open>the spec's formula \<open>round(len(x) * r2 / r1)\<close>, evaluated exactly\<close>
  "spec_length len r1 r2 = js_round (of_nat len * r2 / r1)"

section \<open>Facts about the number model\<close>

lemma pow2_pos: "0 < pow2 e"
  by (simp add: pow2_def)

lemma round_half_even_nonneg: "0 \<le> m \<Longrightarrow> 0 \<le> round_half_even m"
  by (auto simp: round_half_even_def Let_def)

lemma fl_nonneg: "0 \<le> x \<Longrightarrow> 0 \<le> fl p emin x"
  by (auto simp: fl_def Let_def pow2_pos round_half_even_nonneg less_imp_le
      intro!: mult_nonneg_nonneg)

lemma binary64_nonneg: "0 \<le> x \<Longrightarrow> 0 \<le> binary64 x"
  by (simp add: binary64_def fl_nonneg)

lemma fdiv_nonneg: "0 \<le> a \<Longrightarrow> 0 \<le> b \<Longrightarrow> 0 \<le> fdiv a b"
  by (simp add: fdiv_def binary64_nonneg)

lemma fmul_nonneg: "0 \<le> a \<Longrightarrow> 0 \<le> b \<Longrightarrow> 0 \<le> fmul a b"
  by (simp add: fmul_def binary64_nonneg)

lemma js_round_nonneg: "0 \<le> x \<Longrightarrow> 0 \<le> js_round x"
  by (simp add: js_round_def)

lemma pow2_powi: "pow2 e = 2 powi e"
  by (simp add: pow2_def power_int_def field_simps)

lemma pow2_Suc: "pow2 (e + 1) = 2 * pow2 e"
  by (simp add: pow2_powi power_int_add)

lemma pow2_mono: "a \<le> b \<Longrightarrow> pow2 a \<le> pow2 b"
  by (simp add: pow2_powi power_int_increasing)

lemma pow2_add: "pow2 (a + b) = pow2 a * pow2 b"
  by (simp add: pow2_powi power_int_add)

lemma expo_bounds:
  "pow2 (- int n) \<le> x \<Longrightarrow> x < pow2 (int n + 1) \<Longrightarrow>
   pow2 (expo n x) \<le> x \<and> x < pow2 (expo n x + 1)"
proof (induction n arbitrary: x)
  case 0
  then show ?case by (simp add: pow2_def)
next
  case (Suc n)
  show ?case
  proof (cases "2 \<le> x")
    case True
    have "pow2 (- int n) \<le> pow2 0"
      by (rule pow2_mono) simp
    then have l: "pow2 (- int n) \<le> x / 2"
      using True by (simp add: pow2_def)
    have "x < 2 * pow2 (int n + 1)"
      using Suc.prems(2) pow2_Suc [of "int n + 1"] by (simp add: add.commute)
    then have "x / 2 < pow2 (int n + 1)"
      by simp
    moreover have "pow2 (expo n (x / 2) + 1 + 1) = 2 * pow2 (expo n (x / 2) + 1)"
      by (rule pow2_Suc)
    moreover have "pow2 (expo n (x / 2) + 1) = 2 * pow2 (expo n (x / 2))"
      by (rule pow2_Suc)
    ultimately show ?thesis
      using Suc.IH [OF l] True by simp
  next
    case False
    show ?thesis
    proof (cases "x < 1")
      case True
      have "pow2 (- int (Suc n) + 1) = 2 * pow2 (- int (Suc n))"
        by (rule pow2_Suc)
      then have l: "pow2 (- int n) \<le> x * 2"
        using Suc.prems(1) by simp
      have "pow2 1 \<le> pow2 (int n + 1)"
        by (rule pow2_mono) simp
      then have "x * 2 < pow2 (int n + 1)"
        using True by (simp add: pow2_def)
      with l have ih: "pow2 (expo n (x * 2)) \<le> x * 2" "x * 2 < pow2 (expo n (x * 2) + 1)"
        using Suc.IH [of "x * 2"] by simp_all
      have h1: "pow2 (expo n (x * 2) - 1 + 1) = 2 * pow2 (expo n (x * 2) - 1)"
        by (rule pow2_Suc)
      have h2: "pow2 (expo n (x * 2) + 1) = 2 * pow2 (expo n (x * 2))"
        by (rule pow2_Suc)
      have "pow2 (expo n (x * 2) - 1) \<le> x" "x < pow2 (expo n (x * 2))"
        using ih h1 h2 by simp_all
      with True show ?thesis
        by simp
    next
      case f: False
      with False show ?thesis by (simp add: pow2_def)
    qed
  qed
qed

lemma round_half_even_error: "\<bar>of_int (round_half_even m) - m\<bar> \<le> 1 / 2"
proof -
  have "of_int \<lfloor>m\<rfloor> \<le> m" "m < of_int \<lfloor>m\<rfloor> + 1"
    by linarith+
  then show ?thesis
    by (auto simp: round_half_even_def Let_def abs_le_iff)
qed

lemma pow2_less_cancel: "pow2 a < pow2 b \<Longrightarrow> a < b"
  using pow2_mono [of b a] by (cases "a < b") simp_all

lemma fl_error:
  assumes "pow2 emin \<le> x" "x < pow2 2101" "0 < p" "- 2100 \<le> emin"
  shows "\<bar>fl p emin x - x\<bar> \<le> x * pow2 (- int p)"
proof -
  have x: "0 < x"
    using assms(1) pow2_pos [of emin] by linarith
  have lo: "pow2 (- 2100) \<le> x"
    using pow2_mono [OF assms(4)] assms(1) by simp
  define e where "e = expo 2100 x"
  define u where "u = pow2 (e - (int p - 1))"
  have eb: "pow2 e \<le> x" "x < pow2 (e + 1)"
    using expo_bounds [of 2100 x] assms(2) lo x by (simp_all add: e_def)
  have "pow2 emin < pow2 (e + 1)"
    using assms(1) eb(2) by simp
  then have "emin < e + 1"
    by (rule pow2_less_cancel)
  then have m: "max e emin = e"
    by simp
  have u: "0 < u"
    by (simp add: u_def pow2_pos)
  have f: "fl p emin x = of_int (round_half_even (x / u)) * u"
    using x m by (simp add: fl_def Let_def e_def [symmetric] u_def)
  have "\<bar>of_int (round_half_even (x / u)) - x / u\<bar> * u \<le> 1 / 2 * u"
    using round_half_even_error [of "x / u"] u by (intro mult_right_mono) simp_all
  moreover have "\<bar>of_int (round_half_even (x / u)) - x / u\<bar> * u =
      \<bar>of_int (round_half_even (x / u)) * u - x\<bar>"
  proof -
    have "\<bar>of_int (round_half_even (x / u)) - x / u\<bar> * u =
        \<bar>(of_int (round_half_even (x / u)) - x / u) * u\<bar>"
      using u by (simp add: abs_mult)
    also have "(of_int (round_half_even (x / u)) - x / u) * u =
        of_int (round_half_even (x / u)) * u - x"
      using u by (simp add: left_diff_distrib)
    finally show ?thesis .
  qed
  moreover have "pow2 (e - (int p - 1)) = pow2 e * pow2 (- int p) * pow2 1"
  proof -
    have "e - (int p - 1) = e + - int p + 1"
      by simp
    then show ?thesis
      by (simp only: pow2_add)
  qed
  then have "1 / 2 * u = pow2 e * pow2 (- int p)"
    by (simp add: u_def pow2_def)
  moreover have "pow2 e * pow2 (- int p) \<le> x * pow2 (- int p)"
    using eb(1) pow2_pos [of "- int p"] by (intro mult_right_mono) simp_all
  ultimately show ?thesis
    using f by simp
qed

lemma round_half_even_le: "m \<le> of_int M \<Longrightarrow> round_half_even m \<le> M"
proof -
  assume a: "m \<le> of_int M"
  have f: "of_int \<lfloor>m\<rfloor> \<le> m"
    by simp
  then have "\<lfloor>m\<rfloor> \<le> M"
    using a by linarith
  moreover have "0 < m - of_int \<lfloor>m\<rfloor> \<Longrightarrow> \<lfloor>m\<rfloor> + 1 \<le> M"
    using a by linarith
  ultimately show ?thesis
    by (auto simp: round_half_even_def Let_def)
qed

lemma expo_le_0: "x < 2 \<Longrightarrow> expo n x \<le> 0"
proof (induction n arbitrary: x)
  case 0
  then show ?case by simp
next
  case (Suc n)
  have "x < 1 \<Longrightarrow> expo n (x * 2) \<le> 0"
    by (rule Suc.IH) simp
  with Suc.prems show ?case
    by auto
qed

lemma expo_quarter_gen:
  assumes "0 < x" "x \<le> 1 / 4"
  shows "expo (Suc (Suc n)) x \<le> - 2"
proof -
  have "expo n (x * 2 * 2) \<le> 0"
    using assms by (intro expo_le_0) simp
  with assms show ?thesis
    by simp
qed

lemma expo_quarter:
  assumes "0 < x" "x \<le> 1 / 4"
  shows "expo 2100 x \<le> - 2"
  using expo_quarter_gen [OF assms, of 2098] by simp

lemma binary64_quarter:
  assumes "0 \<le> x" "x \<le> 1 / 4"
  shows "binary64 x \<le> 1 / 4"
proof (cases "x = 0")
  case True
  then show ?thesis
    by (simp add: binary64_def fl_def)
next
  case False
  with assms have x: "0 < x"
    by simp
  define e where "e = max (expo 2100 x) (- 1022)"
  define u where "u = pow2 (e - 52)"
  have e: "e \<le> - 2"
    using expo_quarter [OF x assms(2)] x by (simp add: e_def)
  have u: "0 < u"
    by (simp add: u_def pow2_pos)
  have "pow2 (- 2) = pow2 (50 - e + (e - 52))"
    by simp
  also have "\<dots> = pow2 (50 - e) * u"
    unfolding u_def by (rule pow2_add)
  also have "pow2 (50 - e) = of_int (2 ^ nat (50 - e))"
    using e by (simp add: pow2_def)
  finally have q: "1 / 4 = of_int (2 ^ nat (50 - e)) * u"
    by (simp add: pow2_def)
  have "x / u \<le> of_int (2 ^ nat (50 - e))"
    using assms(2) u unfolding q by (simp add: field_simps)
  then have "round_half_even (x / u) \<le> 2 ^ nat (50 - e)"
    by (rule round_half_even_le)
  then have "rat_of_int (round_half_even (x / u)) \<le> of_int (2 ^ nat (50 - e))"
    by (simp only: of_int_le_iff)
  then have "of_int (round_half_even (x / u)) * u \<le> of_int (2 ^ nat (50 - e)) * u"
    using u by (intro mult_right_mono) simp_all
  moreover have "binary64 x = of_int (round_half_even (x / u)) * u"
    using x by (simp add: binary64_def fl_def Let_def e_def [symmetric] u_def)
  ultimately show ?thesis
    using q by simp
qed

lemma js_round_quarter: "0 \<le> y \<Longrightarrow> y \<le> 1 / 4 \<Longrightarrow> js_round y = 0"
  unfolding js_round_def by (intro floor_unique) simp_all

section \<open>The resampler\<close>

lemma newLength_of_nonneg: "newLength_of maxLen len r1 r2 = Some n \<Longrightarrow> 0 \<le> n"
  by (auto simp: newLength_of_def Let_def split: if_splits)

lemma newLength_of_formula:
  assumes "0 < r1" "0 < r2" "len < 2 ^ 53" "newLength_of maxLen len r1 r2 = Some n"
  shows "n = js_round (fdiv (of_nat len) (fdiv r1 r2))"
proof -
  have r: "0 \<le> fdiv r1 r2"
    using assms by (simp add: fdiv_nonneg)
  consider (inf) "overflow64 (fdiv r1 r2)"
    | (zero) "\<not> overflow64 (fdiv r1 r2)" "fdiv r1 r2 = 0"
    | (fin) "\<not> overflow64 (fdiv r1 r2)" "fdiv r1 r2 \<noteq> 0"
    by blast
  then show ?thesis
  proof cases
    case inf
    then have n: "n = 0"
      using assms by (simp add: newLength_of_def)
    have big: "pow2 1024 \<le> fdiv r1 r2"
      using inf r by (simp add: overflow64_def)
    have "rat_of_nat len < rat_of_nat (2 ^ 53)"
      using assms(3) by (simp only: of_nat_less_iff)
    then have l: "rat_of_nat len \<le> pow2 53"
      by (simp add: pow2_def)
    have "pow2 53 * 4 = pow2 (53 + 2)"
      unfolding pow2_add by (simp add: pow2_def)
    also have "\<dots> \<le> pow2 1024"
      by (rule pow2_mono) simp
    finally have "rat_of_nat len * 4 \<le> fdiv r1 r2"
      using l big by linarith
    moreover have "0 < fdiv r1 r2"
      using big pow2_pos [of 1024] by linarith
    ultimately have q1: "rat_of_nat len / fdiv r1 r2 \<le> 1 / 4"
      by (simp add: field_simps)
    have q0: "0 \<le> rat_of_nat len / fdiv r1 r2"
      using r by simp
    have "0 \<le> binary64 (rat_of_nat len / fdiv r1 r2)"
      using q0 by (rule binary64_nonneg)
    moreover have "binary64 (rat_of_nat len / fdiv r1 r2) \<le> 1 / 4"
      using q0 q1 by (rule binary64_quarter)
    ultimately have "js_round (binary64 (rat_of_nat len / fdiv r1 r2)) = 0"
      by (rule js_round_quarter)
    then show ?thesis
      unfolding n fdiv_def [of "of_nat len"] by simp
  next
    case zero
    with assms have "len = 0" "n = 0"
      by (auto simp: newLength_of_def split: if_splits)
    with zero show ?thesis
      by (simp add: fdiv_def [of 0] binary64_def fl_def js_round_quarter)
  next
    case fin
    with assms show ?thesis
      by (auto simp: newLength_of_def Let_def split: if_splits)
  qed
qed

lemma resampleAudio_newLength:
  assumes "r1 \<noteq> r2" "resampleAudio maxLen x r1 r2 = Inr out"
  shows "newLength_of maxLen (length x) r1 r2 = Some (int (length out))"
proof -
  obtain n where n: "newLength_of maxLen (length x) r1 r2 = Some n"
    and out: "out = map (\<lambda>i. snd (resample_step x (fdiv r1 r2) i)) [0..<nat n]"
    using assms by (auto simp: resampleAudio_def split: option.splits)
  have "0 \<le> n"
    using n by (rule newLength_of_nonneg)
  with n out show ?thesis
    by simp
qed

lemma resampleAudio_returns:
  assumes "r1 \<noteq> r2" "newLength_of maxLen (length x) r1 r2 = Some n"
  shows "\<exists>out. resampleAudio maxLen x r1 r2 = Inr out \<and> int (length out) = n"
proof -
  have "0 \<le> n"
    using assms(2) by (rule newLength_of_nonneg)
  with assms show ?thesis
    by (simp add: resampleAudio_def)
qed

lemma resampleAudio_nth:
  assumes "r1 \<noteq> r2" "resampleAudio maxLen x r1 r2 = Inr out" "i < length out"
  shows "out ! i = snd (resample_step x (fdiv r1 r2) i)"
  using assms by (auto simp: resampleAudio_def split: option.splits)

lemma step_reads_in_range:
  assumes "x \<noteq> []" "0 \<le> ratio"
  shows "set (fst (resample_step x ratio i)) \<subseteq> {0 ..< int (length x)}"
proof -
  have "0 \<le> fmul (of_nat i) ratio"
    using assms by (simp add: fmul_nonneg)
  then have "0 \<le> \<lfloor>fmul (of_nat i) ratio\<rfloor>"
    by simp
  with assms show ?thesis
    by (auto simp: resample_step_def Let_def)
qed

lemma step_clamp:
  assumes "x \<noteq> []" "int (length x) - 1 \<le> \<lfloor>fmul (of_nat i) ratio\<rfloor>"
  shows "snd (resample_step x ratio i) = last x"
proof -
  have "nat (int (length x) - 1) = length x - 1"
    by linarith
  with assms show ?thesis
    by (simp add: resample_step_def Let_def read_at_def store_def last_conv_nth)
qed

lemma device_ratio: "fdiv 44100 8000 = 6206523236469965 / 1125899906842624"
  by code_simp

lemma half_gap:
  fixes n :: nat
  defines "k \<equiv> \<lfloor>rat_of_nat n * 80 / 441 + 1 / 2\<rfloor>"
  shows "of_int k + 1 / 882 \<le> rat_of_nat n * 80 / 441 + 1 / 2"
    and "rat_of_nat n * 80 / 441 + 1 / 2 \<le> of_int k + 881 / 882"
proof -
  define N where "N = 160 * int n + 441"
  have t: "rat_of_nat n * 80 / 441 + 1 / 2 = of_int N / of_int 882"
    by (simp add: N_def field_simps)
  have k: "k = N div 882"
    unfolding k_def t by (simp only: floor_divide_of_int_eq)
  have "odd N"
    by (simp add: N_def)
  moreover have "even (N mod 882) = even N"
    by (rule dvd_mod_iff) simp
  ultimately have "odd (N mod 882)"
    by simp
  then have "N mod 882 \<noteq> 0" "N mod 882 \<noteq> 882 - 1 + 1"
    by auto
  moreover have "0 \<le> N mod 882" "N mod 882 < 882"
    by simp_all
  moreover have "N mod 882 \<noteq> 881 + 1"
    using \<open>N mod 882 < 882\<close> by simp
  ultimately have m: "1 \<le> N mod 882" "N mod 882 \<le> 881"
    by linarith+
  have "rat_of_int N = rat_of_int (N mod 882 + 882 * (N div 882))"
    by simp
  also have "\<dots> = of_int (N mod 882) + 882 * of_int (N div 882)"
    by (simp only: of_int_add of_int_mult of_int_numeral)
  finally have "of_int N / of_int 882 = (of_int k :: rat) + of_int (N mod 882) / 882"
    unfolding k by simp
  moreover have "(1::rat) \<le> of_int (N mod 882)" "of_int (N mod 882) \<le> (881::rat)"
    using m by (simp_all only: of_int_le_iff [symmetric, where ?'a = rat] of_int_1 of_int_numeral)
  ultimately show "of_int k + 1 / 882 \<le> rat_of_nat n * 80 / 441 + 1 / 2"
    and "rat_of_nat n * 80 / 441 + 1 / 2 \<le> of_int k + 881 / 882"
    unfolding t by (simp_all add: field_simps)
qed

lemma device_length:
  assumes "n < 2 ^ 32"
  shows "js_round (fdiv (of_nat n) (fdiv 44100 8000)) = spec_length n 44100 8000"
proof (cases "n = 0")
  case True
  then show ?thesis
    by (simp add: fdiv_def binary64_def fl_def js_round_def spec_length_def)
next
  case False
  define r where "r = rat_of_nat n"
  define q where "q = r / (6206523236469965 / 1125899906842624)"
  define c where "c = binary64 q"
  define k where "k = \<lfloor>rat_of_nat n * 80 / 441 + 1 / 2\<rfloor>"
  have r: "1 \<le> r" "r < 4294967296"
  proof -
    have "1 \<le> n" using False by simp
    then have "rat_of_nat 1 \<le> rat_of_nat n" by (simp only: of_nat_le_iff)
    then show "1 \<le> r" by (simp add: r_def)
    have "rat_of_nat n < rat_of_nat (2 ^ 32)"
      using assms by (simp only: of_nat_less_iff)
    then show "r < 4294967296" by (simp add: r_def)
  qed
  have ql: "pow2 (- 1022) \<le> q"
  proof -
    have "pow2 (- 1022) \<le> pow2 (- 3)"
      by (rule pow2_mono) simp
    moreover have "pow2 (- 3) \<le> q"
      using r by (simp add: q_def pow2_def)
    ultimately show ?thesis by simp
  qed
  have qu: "q < pow2 2101"
  proof -
    have "pow2 32 \<le> pow2 2101"
      by (rule pow2_mono) simp
    moreover have "q < pow2 32"
      using r by (simp add: q_def pow2_def)
    ultimately show ?thesis by simp
  qed
  have "\<bar>c - q\<bar> \<le> q * pow2 (- int 53)"
    unfolding c_def binary64_def using ql qu by (intro fl_error) simp_all
  then have e: "\<bar>c - q\<bar> \<le> q / 9007199254740992"
    by (simp add: pow2_def)
  have g: "of_int k + 1 / 882 \<le> r * 80 / 441 + 1 / 2"
    "r * 80 / 441 + 1 / 2 \<le> of_int k + 881 / 882"
    unfolding k_def r_def by (rule half_gap)+
  have qe: "q * 6206523236469965 = r * 1125899906842624"
    unfolding q_def by simp
  have e': "c - q \<le> q / 9007199254740992 \<and> - (c - q) \<le> q / 9007199254740992"
    using e by (simp only: abs_le_iff)
  have "of_int k \<le> c + 1 / 2" "c + 1 / 2 < of_int k + 1"
    using e' g r qe by linarith+
  then have "\<lfloor>c + 1 / 2\<rfloor> = k"
    by (intro floor_unique) simp_all
  moreover have "spec_length n 44100 8000 = k"
    by (simp add: spec_length_def js_round_def k_def mult.commute)
  moreover have "fdiv (of_nat n) (fdiv 44100 8000) = c"
  proof -
    have "fdiv (of_nat n) (fdiv 44100 8000) =
        fdiv (of_nat n) (6206523236469965 / 1125899906842624)"
      by (simp only: device_ratio)
    also have "\<dots> = c"
      by (simp only: fdiv_def c_def q_def r_def)
    finally show ?thesis .
  qed
  ultimately show ?thesis
    by (simp only: js_round_def)
qed

lemma device_rates:
  "0 < DEVICE_SAMPLE_RATE" "0 < TARGET_SAMPLE_RATE" "DEVICE_SAMPLE_RATE \<noteq> TARGET_SAMPLE_RATE"
  by (simp_all add: DEVICE_SAMPLE_RATE_def TARGET_SAMPLE_RATE_def)

lemma device_returns:
  assumes "n < 2 ^ 32" "spec_length n 44100 8000 \<le> maxLen"
  shows "newLength_of maxLen n 44100 8000 = Some (spec_length n 44100 8000)"
proof -
  define c where "c = fdiv (of_nat n) (fdiv 44100 8000)"
  have k: "js_round c = spec_length n 44100 8000"
    unfolding c_def using assms(1) by (rule device_length)
  have "rat_of_nat n < rat_of_nat (2 ^ 32)"
    using assms(1) by (simp only: of_nat_less_iff)
  then have n: "rat_of_nat n < 4294967296"
    by simp
  have "spec_length n 44100 8000 \<le> \<lfloor>rat_of_nat n + 1 / 2\<rfloor>"
    unfolding spec_length_def js_round_def by (intro floor_mono) (simp add: field_simps)
  moreover have "\<lfloor>rat_of_nat n + 1 / 2\<rfloor> = int n"
    by (intro floor_unique) simp_all
  ultimately have "spec_length n 44100 8000 \<le> int n"
    by simp
  then have "rat_of_int (js_round c) \<le> rat_of_nat n"
    unfolding k by (metis of_int_le_iff of_int_of_nat_eq)
  moreover have "c + 1 / 2 < of_int (js_round c) + 1"
    unfolding js_round_def by linarith
  ultimately have cu: "c < 4294967297"
    using n by linarith
  have c0: "0 \<le> c"
    unfolding c_def by (simp add: fdiv_nonneg device_ratio)
  have "(4294967297::rat) \<le> pow2 33"
    by (simp add: pow2_def)
  also have "\<dots> \<le> pow2 1024"
    by (rule pow2_mono) simp
  finally have o: "\<not> overflow64 c"
    using cu c0 by (simp add: overflow64_def)
  have r: "\<not> overflow64 (fdiv 44100 8000)" "fdiv 44100 8000 \<noteq> 0"
    unfolding device_ratio overflow64_def
    using pow2_mono [of 3 1024] by (simp_all add: pow2_def)
  have "0 \<le> js_round c"
    using c0 by (rule js_round_nonneg)
  with o r assms(2) k show ?thesis
    by (simp add: newLength_of_def Let_def c_def [symmetric])
qed

lemma small_not_overflow: "\<bar>y\<bar> < 18446744073709551616 \<Longrightarrow> \<not> overflow64 y"
proof -
  have "(18446744073709551616::rat) = pow2 64"
    by (simp add: pow2_def)
  also have "\<dots> \<le> pow2 1024"
    by (rule pow2_mono) simp
  finally show "\<bar>y\<bar> < 18446744073709551616 \<Longrightarrow> \<not> overflow64 y"
    by (simp add: overflow64_def)
qed

lemma newLength_of_eval:
  assumes "fdiv r1 r2 = ratio \<and> fdiv (of_nat len) ratio = q"
    and "r2 \<noteq> 0 \<and> ratio \<noteq> 0 \<and> \<bar>ratio\<bar> < 18446744073709551616 \<and>
     \<bar>q\<bar> < 18446744073709551616 \<and> js_round q = n \<and> 0 \<le> n \<and> n \<le> maxLen"
  shows "newLength_of maxLen len r1 r2 = Some n"
  using assms by (auto simp: newLength_of_def Let_def small_not_overflow)

text \<open>
  C6.  Resampling from a rate to the same rate returns the input sequence itself,
  whatever the rate and the samples.
\<close>

theorem resampleAudio_identity: "resampleAudio maxLen x r r = Inr x"
  by (simp add: resampleAudio_def)

text \<open>
  C4, as stated, at 21 samples resampled from rate 6 to rate 17: the code computes
  \<open>ratio = 6 / 17\<close> and then \<open>21 / ratio\<close> in double precision, which is just below
  59.5, and returns 59 samples, while \<open>round(21 * 17 / 6) = round(59.5) = 60\<close>.
\<close>

theorem resample_length_counterexample:
  "map_sum id length (resampleAudio 4294967295 (replicate 21 (Val 0)) 6 17) = Inr 59 \<and>
   spec_length 21 6 17 = 60"
proof -
  have n: "newLength_of 4294967295 21 6 17 = Some 59"
    by (rule newLength_of_eval [where ratio = "6358023003346583 / 18014398509481984"
          and q = "8373880557142015 / 140737488355328"]) code_simp+
  have s: "spec_length 21 6 17 = 60"
    by code_simp
  have "(6::rat) \<noteq> 17"
    by simp
  with n s show ?thesis
    by (simp add: resampleAudio_def)
qed

text \<open>
  C4, amended.  Let the rates \<open>r1 \<noteq> r2\<close> be positive and the input have fewer than
  \<open>2^53\<close> samples, as every array has.  If the resampler returns (the output array
  can be allocated), the output has \<open>round(len(x) / ratio)\<close> samples with
  \<open>ratio = r1 / r2\<close>, both quotients rounded to double precision as the code computes
  them.  That length is \<open>round(len(x) * r2 / r1)\<close> whenever neither quotient is
  rounded, and also for the rates the program passes, 44100 and 8000, on every input of
  fewer than \<open>2^32\<close> samples; for those rates and inputs the resampler does return
  whenever an array of that length can be allocated.
\<close>

theorem resample_length:
  assumes "0 < r1" "0 < r2" "r1 \<noteq> r2" "length x < 2 ^ 53"
  shows "(\<forall>out. resampleAudio maxLen x r1 r2 = Inr out \<longrightarrow>
            int (length out) = js_round (fdiv (of_nat (length x)) (fdiv r1 r2)) \<and>
            (fdiv r1 r2 = r1 / r2 \<and>
             fdiv (of_nat (length x)) (r1 / r2) = of_nat (length x) / (r1 / r2) \<longrightarrow>
             int (length out) = spec_length (length x) r1 r2) \<and>
            (r1 = DEVICE_SAMPLE_RATE \<and> r2 = TARGET_SAMPLE_RATE \<and> length x < 2 ^ 32 \<longrightarrow>
             int (length out) = spec_length (length x) r1 r2)) \<and>
         (r1 = DEVICE_SAMPLE_RATE \<and> r2 = TARGET_SAMPLE_RATE \<and> length x < 2 ^ 32 \<and>
          spec_length (length x) r1 r2 \<le> maxLen \<longrightarrow>
          (\<exists>out. resampleAudio maxLen x r1 r2 = Inr out))"
proof -
  have a: "int (length out) = js_round (fdiv (of_nat (length x)) (fdiv r1 r2))"
    if "resampleAudio maxLen x r1 r2 = Inr out" for out
    using resampleAudio_newLength [OF assms(3) that] assms(1,2,4)
    by (rule newLength_of_formula [rotated 3])
  have e: "of_nat (length x) / (r1 / r2) = of_nat (length x) * r2 / r1"
    by simp
  have b: "int (length out) = spec_length (length x) r1 r2"
    if "resampleAudio maxLen x r1 r2 = Inr out" "fdiv r1 r2 = r1 / r2"
      "fdiv (of_nat (length x)) (r1 / r2) = of_nat (length x) / (r1 / r2)" for out
    using a [OF that(1)] that(2,3) e by (simp add: spec_length_def)
  have c: "int (length out) = spec_length (length x) r1 r2"
    if "resampleAudio maxLen x r1 r2 = Inr out" "r1 = DEVICE_SAMPLE_RATE"
      "r2 = TARGET_SAMPLE_RATE" "length x < 2 ^ 32" for out
    using a [OF that(1)] that(2,3) device_length [OF that(4)]
    by (simp add: DEVICE_SAMPLE_RATE_def TARGET_SAMPLE_RATE_def)
  have d: "\<exists>out. resampleAudio maxLen x r1 r2 = Inr out"
    if "r1 = DEVICE_SAMPLE_RATE" "r2 = TARGET_SAMPLE_RATE" "length x < 2 ^ 32"
      "spec_length (length x) r1 r2 \<le> maxLen"
  proof -
    have "newLength_of maxLen (length x) 44100 8000 = Some (spec_length (length x) 44100 8000)"
      using that by (intro device_returns)
        (simp_all add: DEVICE_SAMPLE_RATE_def TARGET_SAMPLE_RATE_def)
    then show ?thesis
      using resampleAudio_returns [of 44100 8000 maxLen x] that(1,2)
      by (auto simp: DEVICE_SAMPLE_RATE_def TARGET_SAMPLE_RATE_def)
  qed
  from a b c d show ?thesis
    by blast
qed

theorem resample_length_witness:
  "(\<exists>out. resampleAudio 4294967295 [Val 1, Val 2, Val 3, Val 4] 2 1 = Inr out \<and>
      int (length out) = 2 \<and> spec_length 4 2 1 = 2) \<and>
   (\<exists>out. resampleAudio 4294967295 (replicate 6 (Val 0)) DEVICE_SAMPLE_RATE
      TARGET_SAMPLE_RATE = Inr out \<and>
      int (length out) = 1 \<and> spec_length 6 DEVICE_SAMPLE_RATE TARGET_SAMPLE_RATE = 1)"
proof -
  let ?x = "[Val 1, Val 2, Val 3, Val 4]"
  let ?y = "replicate 6 (Val 0)"
  have n: "newLength_of 4294967295 (length ?x) 2 1 = Some 2"
    by (rule newLength_of_eval [where ratio = 2 and q = 2]) code_simp+
  have e: "fdiv 2 1 = 2 / 1 \<and> fdiv (of_nat (length ?x)) (2 / 1) = of_nat (length ?x) / (2 / 1)"
    by code_simp
  have s: "spec_length (length ?x) 2 1 = 2" "spec_length 4 2 1 = 2"
    by code_simp+
  obtain out where out: "resampleAudio 4294967295 ?x 2 1 = Inr out"
    using resampleAudio_returns [OF _ n] by auto
  have pre: "(0::rat) < 2" "(0::rat) < 1" "(2::rat) \<noteq> 1" "length ?x < 2 ^ 53"
    by simp_all
  note v = resample_length [OF pre, of 4294967295]
  have "int (length out) = spec_length (length ?x) 2 1"
    using v out e by blast
  with s out have a: "\<exists>out. resampleAudio 4294967295 ?x 2 1 = Inr out \<and>
      int (length out) = 2 \<and> spec_length 4 2 1 = 2"
    by auto
  have d: "spec_length (length ?y) DEVICE_SAMPLE_RATE TARGET_SAMPLE_RATE = 1"
    "spec_length 6 DEVICE_SAMPLE_RATE TARGET_SAMPLE_RATE = 1"
    by code_simp+
  have l: "length ?y < 2 ^ 32" "length ?y < 2 ^ 53"
    by simp_all
  note w = resample_length [OF device_rates l(2), of 4294967295]
  obtain out' where o: "resampleAudio 4294967295 ?y DEVICE_SAMPLE_RATE TARGET_SAMPLE_RATE =
      Inr out'"
    using w d(1) l(1) by auto
  then have "int (length out') = 1"
    using w d(1) l(1) by auto
  with o d(2) have "\<exists>out. resampleAudio 4294967295 ?y DEVICE_SAMPLE_RATE
      TARGET_SAMPLE_RATE = Inr out \<and> int (length out) = 1 \<and>
      spec_length 6 DEVICE_SAMPLE_RATE TARGET_SAMPLE_RATE = 1"
    by blast
  with a show ?thesis
    by blast
qed

text \<open>
  C5.  For a non-empty input and positive, different rates, every iteration of the
  resampling loop reads only indices inside the input; and an output index whose source
  position has its floor at the last valid input index or beyond holds the last input
  sample.
\<close>

theorem resample_clamp:
  assumes "x \<noteq> []" "0 < r1" "0 < r2" "r1 \<noteq> r2"
    and "resampleAudio maxLen x r1 r2 = Inr out" "i < length out"
  shows "set (resample_reads x r1 r2 i) \<subseteq> {0 ..< int (length x)} \<and>
         (int (length x) - 1 \<le> \<lfloor>fmul (of_nat i) (fdiv r1 r2)\<rfloor> \<longrightarrow> out ! i = last x)"
proof -
  have "0 \<le> fdiv r1 r2"
    using assms by (simp add: fdiv_nonneg)
  then have "set (fst (resample_step x (fdiv r1 r2) i)) \<subseteq> {0 ..< int (length x)}"
    using assms(1) by (rule step_reads_in_range [rotated])
  moreover have "out ! i = snd (resample_step x (fdiv r1 r2) i)"
    using assms by (simp add: resampleAudio_nth)
  ultimately show ?thesis
    using assms(1) by (simp add: resample_reads_def step_clamp)
qed

theorem resample_clamp_witness:
  "\<exists>out. resampleAudio 4294967295 [Val 1, Val 2, Val 3, Val 4] 1 2 = Inr out \<and>
     length out = 8 \<and>
     set (resample_reads [Val 1, Val 2, Val 3, Val 4] 1 2 7) \<subseteq> {0 ..< 4} \<and>
     out ! 7 = Val 4"
proof -
  let ?x = "[Val 1, Val 2, Val 3, Val 4]"
  have n: "newLength_of 4294967295 (length ?x) 1 2 = Some 8"
    by (rule newLength_of_eval [where ratio = "1 / 2" and q = 8]) code_simp+
  have f: "int (length ?x) - 1 \<le> \<lfloor>fmul (of_nat 7) (fdiv 1 2)\<rfloor>"
    by code_simp
  obtain out where out: "resampleAudio 4294967295 ?x 1 2 = Inr out" "length out = 8"
    using resampleAudio_returns [OF _ n] by auto
  have "set (resample_reads ?x 1 2 7) \<subseteq> {0 ..< int (length ?x)} \<and>
        (int (length ?x) - 1 \<le> \<lfloor>fmul (of_nat 7) (fdiv 1 2)\<rfloor> \<longrightarrow> out ! 7 = last ?x)"
    by (rule resample_clamp [OF _ _ _ _ out(1)]) (simp_all add: out(2))
  with out f show ?thesis
    by simp
qed

section \<open>The inference client\<close>

text \<open>
  C8.  \<open>transcribeAudio\<close> fails exactly when the transport call errors, or the response
  has no body, or decoding or parsing the body fails; in every other case it returns a
  result record.
\<close>

theorem transcribeAudio_fails_iff:
  "isl (transcribeAudio p audioData options) =
     (transport_errors p audioData options \<or> body_absent p audioData options \<or>
      decode_or_parse_fails p audioData options) \<and>
   (\<not> isl (transcribeAudio p audioData options)) =
     (\<exists>result. transcribeAudio p audioData options = Inr result)"
  by (auto simp: transcribeAudio_def transport_errors_def body_absent_def
      decode_or_parse_fails_def Let_def split: sum.splits option.splits)

lemma map_of_replace:
  "k \<in> fst ` set props \<Longrightarrow>
   map_of (map (\<lambda>(k', v'). if k' = k then (k', v) else (k', v')) props) k = Some v"
  by (induction props) auto

lemma get_set_prop: "get_prop (set_prop k v props) k = Some v"
proof (cases "k \<in> fst ` set props")
  case True
  then show ?thesis
    by (simp add: get_prop_def set_prop_def map_of_replace)
next
  case False
  then have "map_of props k = None"
    by (simp add: map_of_eq_None_iff)
  with False show ?thesis
    by (simp add: get_prop_def set_prop_def map_add_def)
qed

lemma set_prop_only: "(k, b) \<in> set (set_prop k v props) \<Longrightarrow> b = v"
  by (cases "k \<in> fst ` set props") (force simp: set_prop_def split: if_splits)+

lemma set_prop_has: "(k, v) \<in> set (set_prop k v props)"
  by (cases "k \<in> fst ` set props") (force simp: set_prop_def)+

lemma set_prop_values:
  "snd ` {kv \<in> set (set_prop k v props). fst kv = k} = {v}"
proof
  show "snd ` {kv \<in> set (set_prop k v props). fst kv = k} \<subseteq> {v}"
    using set_prop_only [of k _ v props] by auto
  show "{v} \<subseteq> snd ` {kv \<in> set (set_prop k v props). fst kv = k}"
    using set_prop_has [of k v props] by force
qed

lemma demo_transcribes:
  "transcribeAudio demo_platform wav no_options =
     Inr [(''text'', JStr ''hello''), (''duration'', JNum 250)]"
  by (simp add: transcribeAudio_def demo_platform_def Let_def spread_def set_prop_def)

text \<open>
  C10.  The \<open>duration\<close> of a returned record is the time measured around the transport
  call, end minus start; it is the only value of a \<open>duration\<close> property of the record,
  so a duration the service put in its payload is never returned.
\<close>

theorem duration_measured:
  assumes "transcribeAudio p audioData options = Inr result"
  shows "get_prop result ''duration'' = Some (JNum (of_int (endTime p - startTime p))) \<and>
         snd ` {kv \<in> set result. fst kv = ''duration''} =
           {JNum (of_int (endTime p - startTime p))}"
proof -
  obtain jsonObject where
    "result = set_prop ''duration'' (JNum (of_int (endTime p - startTime p))) (spread jsonObject)"
    using assms by (auto simp: transcribeAudio_def Let_def split: sum.splits option.splits)
  then show ?thesis
    by (simp only: get_set_prop set_prop_values)
qed

theorem duration_measured_witness:
  "transcribeAudio demo_platform [82, 73, 70, 70] no_options =
     Inr [(''text'', JStr ''hello''), (''duration'', JNum 250)] \<and>
   get_prop [(''text'', JStr ''hello''), (''duration'', JNum 250)] ''duration'' =
     Some (JNum 250) \<and>
   snd ` {kv \<in> set [(''text'', JStr ''hello''), (''duration'', JNum 250)].
            fst kv = ''duration''} = {JNum 250}"
proof -
  have t: "endTime demo_platform - startTime demo_platform = 250"
    by (simp add: demo_platform_def)
  from duration_measured [OF demo_transcribes [of "[82, 73, 70, 70]"]] t
  show ?thesis
    by (simp add: demo_transcribes)
qed

section \<open>The segment processor\<close>

lemma called_fields [simp]:
  "isRecording (called c s) = isRecording s"
  "recordingSubscription (called c s) = recordingSubscription s"
  "stopRecordingSubject (called c s) = stopRecordingSubject s"
  "transcriptionResults (called c s) = transcriptionResults s"
  "container (called c s) = container s"
  "live (called c s) = live s"
  "nextId (called c s) = nextId s"
  "calls (called c s) = calls s @ [c]"
  by (simp_all add: called_def)

lemma updateTranscriptionUI_fields [simp]:
  "isRecording (updateTranscriptionUI p r s) = isRecording s"
  "recordingSubscription (updateTranscriptionUI p r s) = recordingSubscription s"
  "stopRecordingSubject (updateTranscriptionUI p r s) = stopRecordingSubject s"
  "transcriptionResults (updateTranscriptionUI p r s) = transcriptionResults s"
  "live (updateTranscriptionUI p r s) = live s"
  "nextId (updateTranscriptionUI p r s) = nextId s"
  "calls (updateTranscriptionUI p r s) = calls s"
  by (simp_all add: updateTranscriptionUI_def split: option.splits)

lemma device_resampled:
  assumes "length (originalAudioData chunks) = n" "n < 2 ^ 32"
    and "spec_length n 44100 8000 = k" "0 < k" "k \<le> maxLength p"
  shows "\<exists>r. resampleAudio (maxLength p) (originalAudioData chunks) DEVICE_SAMPLE_RATE
           TARGET_SAMPLE_RATE = Inr r \<and> r \<noteq> []"
proof -
  have "newLength_of (maxLength p) (length (originalAudioData chunks)) 44100 8000 = Some k"
    using device_returns [of n "maxLength p"] assms by simp
  then obtain r where "resampleAudio (maxLength p) (originalAudioData chunks) 44100 8000 = Inr r"
    "int (length r) = k"
    using resampleAudio_returns [of 44100 8000] by fastforce
  with assms(4) show ?thesis
    by (auto simp: DEVICE_SAMPLE_RATE_def TARGET_SAMPLE_RATE_def)
qed

lemma processAudioChunk_calls_start:
  "\<exists>rest. calls (snd (processAudioChunk p w s)) = calls s @ Process w # Resample # rest"
  by (simp add: processAudioChunk_def Let_def split: sum.splits)

lemma write_failure:
  assumes "resampleAudio (maxLength p) (originalAudioData chunks) DEVICE_SAMPLE_RATE
      TARGET_SAMPLE_RATE = Inr r"
    and "renderAudioToWav p r = Inr wavData"
    and "writeFile p (filename p) wavData = Inl err"
  shows "processAudioChunk p chunks s =
           (None, s\<lparr>calls := calls s @
              [Process chunks, Resample, Encode, Persist, LogError err]\<rparr>)"
  using assms by (simp add: processAudioChunk_def Let_def called_def)

lemma failing_disk_facts:
  "maxLength failing_disk = 4294967295"
  "r \<noteq> [] \<Longrightarrow> renderAudioToWav failing_disk r = Inr (replicate (44 + 2 * length r) 0)"
  "writeFile failing_disk path data = Inl WriteError"
  by (simp_all add: failing_disk_def demo_platform_def renderAudioToWav_def)

text \<open>
  C1, as stated, on a platform whose file write fails while its inference call would
  succeed, for a window of two chunks of three samples: the file write is the last call
  made for the window, the inference call is never made and the processor returns null.
\<close>

theorem persistence_failure_counterexample:
  "nodeAPI_transcribeAudio failing_disk [82, 73, 70, 70] =
     Inr [(''text'', JStr ''hello''), (''duration'', JNum 250)] \<and>
   fst (processAudioChunk failing_disk [[Val 0, Val 0, Val 0], [Val 0, Val 0, Val 0]]
          (initial (Some []))) = None \<and>
   calls (snd (processAudioChunk failing_disk [[Val 0, Val 0, Val 0], [Val 0, Val 0, Val 0]]
                 (initial (Some [])))) =
     [Process [[Val 0, Val 0, Val 0], [Val 0, Val 0, Val 0]], Resample, Encode, Persist,
      LogError WriteError]"
proof -
  let ?w = "[[Val 0, Val 0, Val 0], [Val 0, Val 0, Val 0]]"
  have l: "length (originalAudioData ?w) = 6"
    by (simp add: originalAudioData_def)
  have k: "spec_length 6 44100 8000 = 1"
    by code_simp
  obtain r where r: "resampleAudio (maxLength failing_disk) (originalAudioData ?w)
      DEVICE_SAMPLE_RATE TARGET_SAMPLE_RATE = Inr r" "r \<noteq> []"
    using device_resampled [OF l _ k, of failing_disk] by (auto simp: failing_disk_facts)
  have "processAudioChunk failing_disk ?w (initial (Some [])) =
      (None, (initial (Some []))\<lparr>calls := calls (initial (Some [])) @
         [Process ?w, Resample, Encode, Persist, LogError WriteError]\<rparr>)"
    using r(1) failing_disk_facts(2) [OF r(2)] failing_disk_facts(3) by (rule write_failure)
  moreover have "nodeAPI_transcribeAudio failing_disk [82, 73, 70, 70] =
      Inr [(''text'', JStr ''hello''), (''duration'', JNum 250)]"
    by (simp add: nodeAPI_transcribeAudio_def transcribeAudio_def failing_disk_def
        demo_platform_def Let_def spread_def set_prop_def)
  ultimately show ?thesis
    by (simp add: initial_def)
qed

text \<open>
  C1, amended.  If the persistence call for a window's encoded buffer fails, the
  segment is aborted there: the processor reports the failure with \<open>console.error\<close>
  and returns null, the inference call is not made, nothing is appended to the result
  list or shown, and the rest of the state is as before; the error does not leave the
  processor.
\<close>

theorem persistence_failure_aborts:
  assumes "resampleAudio (maxLength p) (originalAudioData chunks) DEVICE_SAMPLE_RATE
      TARGET_SAMPLE_RATE = Inr r"
    and "renderAudioToWav p r = Inr wavData"
    and "writeFile p (filename p) wavData = Inl err"
  shows "processAudioChunk p chunks s =
           (None, s\<lparr>calls := calls s @
              [Process chunks, Resample, Encode, Persist, LogError err]\<rparr>)"
  using assms by (rule write_failure)

theorem persistence_failure_aborts_witness:
  "processAudioChunk failing_disk [[Val 1, Val 2, Val 3]] (initial None) =
     (None, (initial None)\<lparr>calls :=
        [Process [[Val 1, Val 2, Val 3]], Resample, Encode, Persist, LogError WriteError]\<rparr>)"
proof -
  let ?w = "[[Val 1, Val 2, Val 3]]"
  have l: "length (originalAudioData ?w) = 3"
    by (simp add: originalAudioData_def)
  have k: "spec_length 3 44100 8000 = 1"
    by code_simp
  obtain r where r: "resampleAudio (maxLength failing_disk) (originalAudioData ?w)
      DEVICE_SAMPLE_RATE TARGET_SAMPLE_RATE = Inr r" "r \<noteq> []"
    using device_resampled [OF l _ k, of failing_disk] by (auto simp: failing_disk_facts)
  from persistence_failure_aborts
    [OF r(1) failing_disk_facts(2) [OF r(2)] failing_disk_facts(3), of "initial None"]
  show ?thesis
    by (simp add: initial_def)
qed

text \<open>
  C3, as stated, at a window of one zero-length chunk: its chunks concatenate to the
  empty sequence, and the tick handler hands it to the processor, which calls the
  resampler.
\<close>

theorem empty_window_counterexample:
  "originalAudioData [[]] = [] \<and>
   Resample \<in> set (calls (subscriber_next demo_platform [[]] (initial None)))"
proof -
  obtain rest where "calls (snd (processAudioChunk demo_platform [[]] (initial None))) =
      calls (initial None) @ Process [[]] # Resample # rest"
    using processAudioChunk_calls_start by blast
  then show ?thesis
    by (simp add: originalAudioData_def subscriber_next_def)
qed

text \<open>
  C3, amended.  For a window with zero chunks the tick handler returns at once: the
  processor is not invoked and no resample, encode, persist, inference or display call is
  made, the state staying as it is.  A window with at least one chunk, zero-length or
  not, is handed to the processor, which starts by calling the resampler.
\<close>

theorem empty_window_skip:
  "subscriber_next p [] s = s \<and>
   (\<exists>rest. calls (subscriber_next p (c # cs) s) = calls s @ Process (c # cs) # Resample # rest)"
  by (simp add: subscriber_next_def processAudioChunk_calls_start)







section \<open>Session controller and scheduler\<close>

lemma processAudioChunk_frame:
  "isRecording (snd (processAudioChunk p w s)) = isRecording s"
  "recordingSubscription (snd (processAudioChunk p w s)) = recordingSubscription s"
  "stopRecordingSubject (snd (processAudioChunk p w s)) = stopRecordingSubject s"
  "live (snd (processAudioChunk p w s)) = live s"
  "nextId (snd (processAudioChunk p w s)) = nextId s"
  by (simp_all add: processAudioChunk_def Let_def split: sum.splits)

lemma processAudioChunk_windows:
  "windows (snd (processAudioChunk p w s)) = windows s @ [w]"
  by (simp add: processAudioChunk_def Let_def windows_def split: sum.splits)

lemma subscriber_next_frame:
  "isRecording (subscriber_next p w s) = isRecording s"
  "recordingSubscription (subscriber_next p w s) = recordingSubscription s"
  "stopRecordingSubject (subscriber_next p w s) = stopRecordingSubject s"
  "live (subscriber_next p w s) = live s"
  by (simp_all add: subscriber_next_def processAudioChunk_frame)

lemma subscriber_next_windows:
  "concat (windows (subscriber_next p w s)) = concat (windows s) @ w"
  by (simp add: subscriber_next_def processAudioChunk_windows)

lemma session_inv_cong:
  "live t = live s \<Longrightarrow> isRecording t = isRecording s \<Longrightarrow>
   recordingSubscription t = recordingSubscription s \<Longrightarrow>
   stopRecordingSubject t = stopRecordingSubject s \<Longrightarrow> session_inv t = session_inv s"
  by (simp add: session_inv_def split: list.splits prod.splits)

lemma session_inv_initial: "session_inv (initial c)"
  by (simp add: session_inv_def initial_def)

lemma session_inv_cases:
  assumes "session_inv s"
  obtains "live s = []" "\<not> isRecording s" "recordingSubscription s = None"
      "stopRecordingSubject s = None"
  | k b where "live s = [(k, b)]" "isRecording s" "recordingSubscription s = Some k"
      "stopRecordingSubject s = Some k"
  using assms by (auto simp: session_inv_def split: list.splits)

lemma session_inv_step:
  assumes "session_inv s"
  shows "session_inv (step p s e)"
  using assms
proof (cases rule: session_inv_cases)
  case 1
  then show ?thesis
    by (cases e)
      (simp_all add: session_inv_def startIntervalRecording_def stopIntervalRecording_def)
next
  case (2 k b)
  show ?thesis
  proof (cases e)
    case Tick
    have "session_inv (subscriber_next p b (s\<lparr>live := [(k, [])]\<rparr>)) =
          session_inv (s\<lparr>live := [(k, [])]\<rparr>)"
      by (rule session_inv_cong) (simp_all add: subscriber_next_frame)
    with 2 Tick show ?thesis
      by (simp add: session_inv_def)
  qed (use 2 in \<open>simp_all add: session_inv_def startIntervalRecording_def
       stopIntervalRecording_def close_pipeline_def\<close>)
qed

lemma run_Cons: "run p (e # es) s = run p es (step p s e)"
  by (simp add: run_def)

lemma run_snoc: "run p (es @ [e]) s = step p (run p es s) e"
  by (simp add: run_def)

lemma session_inv_run: "session_inv s \<Longrightarrow> session_inv (run p es s)"
  by (induction es arbitrary: s) (simp_all add: run_def session_inv_step)

lemma session_inv_live: "session_inv s \<Longrightarrow> length (live s) \<le> 1"
  by (auto elim: session_inv_cases)

text \<open>
  C7.  In every state reached from the initial one by chunks, ticks, starts, stops and
  stream errors: a start while recording leaves the whole state unchanged, a stop while
  not recording leaves it unchanged, and at most one subscription is open.
\<close>

theorem start_stop_idempotent:
  assumes "s = run p es (initial c)"
  shows "(isRecording s \<longrightarrow> startIntervalRecording s = s) \<and>
         (\<not> isRecording s \<longrightarrow> stopIntervalRecording s = s) \<and>
         length (live s) \<le> 1"
proof -
  have "session_inv s"
    using assms by (simp add: session_inv_run session_inv_initial)
  then have "length (live s) \<le> 1"
    by (rule session_inv_live)
  then show ?thesis
    by (simp add: startIntervalRecording_def stopIntervalRecording_def)
qed

theorem start_stop_idempotent_witness:
  "isRecording (run demo_platform [Start, Chunk [Val 0]] (initial None)) \<and>
   startIntervalRecording (run demo_platform [Start, Chunk [Val 0]] (initial None)) =
     run demo_platform [Start, Chunk [Val 0]] (initial None) \<and>
   \<not> isRecording (run demo_platform [Start, Stop] (initial None)) \<and>
   stopIntervalRecording (run demo_platform [Start, Stop] (initial None)) =
     run demo_platform [Start, Stop] (initial None) \<and>
   length (live (run demo_platform [Start, Chunk [Val 0]] (initial None))) \<le> 1"
proof -
  have a: "isRecording (run demo_platform [Start, Chunk [Val 0]] (initial None))"
    by (simp add: run_def startIntervalRecording_def initial_def)
  have b: "\<not> isRecording (run demo_platform [Start, Stop] (initial None))"
    by (simp add: run_def startIntervalRecording_def stopIntervalRecording_def initial_def
        close_pipeline_def)
  from a b start_stop_idempotent [OF refl, of demo_platform "[Start, Chunk [Val 0]]" None]
    start_stop_idempotent [OF refl, of demo_platform "[Start, Stop]" None]
  show ?thesis
    by blast
qed

lemma step_conserves:
  assumes "session_inv s" "isRecording s" "e \<noteq> Stop" "e \<noteq> StreamError"
  shows "isRecording (step p s e) \<and>
         concat (windows (step p s e)) @ pending (step p s e) =
         concat (windows s) @ pending s @ chunks_of [e]"
  using assms(1)
proof (cases rule: session_inv_cases)
  case 1
  with assms show ?thesis by simp
next
  case (2 k b)
  show ?thesis
  proof (cases e)
    case (Chunk c)
    with 2 show ?thesis
      by (simp add: windows_def pending_def chunks_of_def)
  next
    case Tick
    have "windows (s\<lparr>live := [(k, [])]\<rparr>) = windows s"
      by (simp add: windows_def)
    with 2 Tick show ?thesis
      by (simp add: subscriber_next_frame subscriber_next_windows pending_def chunks_of_def)
  next
    case Start
    with 2 show ?thesis
      by (simp add: startIntervalRecording_def chunks_of_def)
  qed (use assms in simp_all)
qed

lemma chunks_of_Cons: "chunks_of (e # es) = chunks_of [e] @ chunks_of es"
  by (simp add: chunks_of_def)

lemma run_conserves:
  assumes "session_inv s" "isRecording s" "Stop \<notin> set es" "StreamError \<notin> set es"
  shows "isRecording (run p es s) \<and>
         concat (windows (run p es s)) @ pending (run p es s) =
         concat (windows s) @ pending s @ chunks_of es"
  using assms
proof (induction es arbitrary: s)
  case Nil
  then show ?case by (simp add: run_def chunks_of_def)
next
  case (Cons e es)
  have e: "e \<noteq> Stop" "e \<noteq> StreamError"
    using Cons.prems by auto
  note st = step_conserves [OF Cons.prems(1,2) e, of p]
  have "session_inv (step p s e)"
    using Cons.prems(1) by (rule session_inv_step)
  then have "isRecording (run p es (step p s e)) \<and>
      concat (windows (run p es (step p s e))) @ pending (run p es (step p s e)) =
      concat (windows (step p s e)) @ pending (step p s e) @ chunks_of es"
    using st Cons.prems by (intro Cons.IH) simp_all
  with st show ?case
    by (simp add: run_Cons chunks_of_Cons [of e es])
qed

lemma started:
  "session_inv (startIntervalRecording (initial c))"
  "isRecording (startIntervalRecording (initial c))"
  "windows (startIntervalRecording (initial c)) = []"
  "pending (startIntervalRecording (initial c)) = []"
  by (simp_all add: startIntervalRecording_def initial_def session_inv_def windows_def
      pending_def)

lemma tick_flushes:
  assumes "session_inv s" "isRecording s"
  shows "concat (windows (step p s Tick)) = concat (windows s) @ pending s"
  using assms(1)
proof (cases rule: session_inv_cases)
  case 1
  with assms show ?thesis by simp
next
  case (2 k b)
  have "windows (s\<lparr>live := [(k, [])]\<rparr>) = windows s"
    by (simp add: windows_def)
  with 2 show ?thesis
    by (simp add: subscriber_next_windows pending_def)
qed

text \<open>
  C2.  For every interleaving of chunks and ticks after a start, with no stop and no
  stream error in it: once the tick that follows the last chunk has fired, the windows
  handed to the segment processor concatenate to exactly the chunk stream, in arrival
  order; and at every moment the windows handed over so far followed by the pending
  window buffer are the chunk stream so far.  So no chunk is in two windows and none is
  left out.
\<close>

theorem no_double_counting:
  assumes "Stop \<notin> set es" "StreamError \<notin> set es"
  shows "concat (windows (run p (Start # es @ [Tick]) (initial c))) = chunks_of es \<and>
         concat (windows (run p (Start # es) (initial c))) @
           pending (run p (Start # es) (initial c)) = chunks_of es"
proof -
  let ?s = "run p es (startIntervalRecording (initial c))"
  have r: "isRecording ?s \<and> concat (windows ?s) @ pending ?s = chunks_of es"
    using run_conserves [OF started(1,2) assms, of p c] by (simp add: started)
  have "session_inv ?s"
    by (simp add: session_inv_run started)
  then have "concat (windows (step p ?s Tick)) = concat (windows ?s) @ pending ?s"
    using r by (intro tick_flushes) simp_all
  with r show ?thesis
    by (simp add: run_Cons run_snoc del: step.simps(2))
qed

theorem no_double_counting_witness:
  "concat (windows (run demo_platform
     (Start # [Chunk [Val 1], Chunk [Val 2], Tick, Tick, Chunk [Val 3]] @ [Tick])
     (initial None))) = [[Val 1], [Val 2], [Val 3]]"
proof -
  have "chunks_of [Chunk [Val 1], Chunk [Val 2], Tick, Tick, Chunk [Val 3]] =
      [[Val 1], [Val 2], [Val 3]]"
    by (simp add: chunks_of_def)
  with no_double_counting [of "[Chunk [Val 1], Chunk [Val 2], Tick, Tick, Chunk [Val 3]]"
      demo_platform None]
  show ?thesis
    by simp
qed

end
